theory Spec2Isabelle
  imports Complex_Main
begin

section \<open>Audio notes: the note store of app.py\<close>

text \<open>
  The application keeps its notes in one Qdrant collection shared by all users and
  embeds texts through the OpenAI client. This theory embeds the functions of
  \<^verbatim>\<open>src/app.py\<close> that read and write the collection:
  \<^verbatim>\<open>assure_db_collection_exists\<close>, \<^verbatim>\<open>get_embeddings\<close>, \<^verbatim>\<open>transcribe_audio\<close>,
  \<^verbatim>\<open>add_note_to_db\<close> and \<^verbatim>\<open>list_notes_from_db\<close>.

  Python exceptions are values of type \<open>error\<close>; a function that can raise returns
  \<open>error + 'a\<close>, and a function that mutates the session or the collection returns the
  state it leaves behind also when it raises. Floating-point numbers are modelled as
  reals.
\<close>

subsection \<open>Constants of the module\<close>

definition EMBEDDING_MODEL :: string where
  "EMBEDDING_MODEL = ''text-embedding-3-large''"

definition EMBEDDING_DIM :: nat where
  "EMBEDDING_DIM = 3072"


definition QDRANT_COLLECTION_NAME :: string where
  "QDRANT_COLLECTION_NAME = ''notes''"

subsection \<open>Errors\<close>

datatype error =
    KeyError string
  | OpenAIError string
  | QdrantError string
  | NotFound string
  | AlreadyExists string

subsection \<open>Data of the vector store\<close>

type_synonym vector = "real list"

datatype Distance = COSINE | EUCLID | DOT | MANHATTAN

text \<open>
  \<^verbatim>\<open>PointStruct(id=..., vector=..., payload={"text": ..., "user_id": ...})\<close>: the
  payload of every point this program writes has exactly the keys \<^verbatim>\<open>text\<close> and
  \<^verbatim>\<open>user_id\<close>.
\<close>

record PointStruct =
  pid :: nat
  pvector :: vector
  ptext :: string
  puser_id :: string

record collection =
  vectors_size :: nat
  distance :: Distance
  payload_indexes :: "(string \<times> string) list"
  points :: "PointStruct list"

type_synonym store = "string \<rightharpoonup> collection"

text \<open>
  \<^verbatim>\<open>models.Filter(must=[models.FieldCondition(key=..., match=models.MatchValue(value=...))])\<close>
\<close>

datatype MatchValue = MatchValue string

datatype FieldCondition = FieldCondition string MatchValue

datatype Filter = Filter "FieldCondition list"

text \<open>
  What the client hands back: \<^verbatim>\<open>search\<close> returns scored points, which have an
  attribute \<^verbatim>\<open>score\<close>; \<^verbatim>\<open>scroll\<close> returns records, which have none.
\<close>

datatype hit = ScoredPoint PointStruct real | Record PointStruct

fun payload_of :: "hit \<Rightarrow> PointStruct" where
  "payload_of (ScoredPoint p s) = p"
| "payload_of (Record p) = p"

fun getattr_score :: "hit \<Rightarrow> real option" where
  "getattr_score (ScoredPoint p s) = Some s"
| "getattr_score (Record p) = None"

subsection \<open>The collaborators\<close>

text \<open>
  The OpenAI service and the failures of the Qdrant service are parameters of the
  model, fixed for the duration of one operation: \<open>embeddings_create\<close> and
  \<open>transcriptions_create\<close> are the two OpenAI calls, \<open>metric\<close> is the similarity the
  store computes for a collection's distance, and each \<open>fault_\<close> field says whether the
  Qdrant call of that name fails (network, quota, malformed response) and with what.
\<close>

record services =
  embeddings_create :: "string \<Rightarrow> string \<Rightarrow> nat \<Rightarrow> error + vector"
  transcriptions_create :: "nat list \<Rightarrow> string \<Rightarrow> string \<Rightarrow> string \<Rightarrow> error + string"
  metric :: "Distance \<Rightarrow> vector \<Rightarrow> vector \<Rightarrow> real"
  fault_collection_exists :: "error option"
  fault_create_collection :: "error option"
  fault_create_payload_index :: "error option"
  fault_count :: "error option"
  fault_upsert :: "error option"
  fault_search :: "error option"
  fault_scroll :: "error option"

subsection \<open>The Qdrant client\<close>

text \<open>
  Modelled from the spec: how the Qdrant library decides that a point matches a filter
  (every condition under \<^verbatim>\<open>must\<close> holds; a condition holds when the payload has the
  value at the key), and how it stores one point of an upsert.
\<close>

fun payload_get :: "PointStruct \<Rightarrow> string \<Rightarrow> string option" where
  "payload_get p k =
     (if k = ''text'' then Some (ptext p)
      else if k = ''user_id'' then Some (puser_id p)
      else None)"

fun condition_holds :: "PointStruct \<Rightarrow> FieldCondition \<Rightarrow> bool" where
  "condition_holds p (FieldCondition k (MatchValue v)) = (payload_get p k = Some v)"

fun matches :: "Filter \<Rightarrow> PointStruct \<Rightarrow> bool" where
  "matches (Filter must) p = list_all (condition_holds p) must"

fun upsert_point :: "PointStruct \<Rightarrow> PointStruct list \<Rightarrow> PointStruct list" where
  "upsert_point p [] = [p]"
| "upsert_point p (x # xs) = (if pid x = pid p then p # xs else x # upsert_point p xs)"

text \<open>
  The methods of \<^verbatim>\<open>qdrant_client.QdrantClient\<close> that app.py calls belong to the Qdrant
  library, which is not among the sources. Each is modelled from the contract that
  the spec gives for the Vector Store Adapter. A call whose \<open>fault_\<close> field is set fails
  with that error, a call on a collection that does not exist fails, and a call that
  fails changes nothing.
\<close>

text \<open>
  Modelled from the spec: \<^verbatim>\<open>collectionExists(name)\<close>, the collection-exists check of
  the Qdrant library.
\<close>

definition collection_exists :: "services \<Rightarrow> store \<Rightarrow> string \<Rightarrow> error + bool" where
  "collection_exists sv db name =
     (case fault_collection_exists sv of
        Some e \<Rightarrow> Inl e
      | None \<Rightarrow> Inr (db name \<noteq> None))"

text \<open>
  Modelled from the spec: \<^verbatim>\<open>createCollection(name, dim, metric)\<close> of the Qdrant library;
  the new collection has no index and no point.
\<close>

definition create_collection ::
  "services \<Rightarrow> store \<Rightarrow> string \<Rightarrow> nat \<Rightarrow> Distance \<Rightarrow> error + store" where
  "create_collection sv db name sz metric_kind =
     (case fault_create_collection sv of
        Some e \<Rightarrow> Inl e
      | None \<Rightarrow>
          (case db name of
             Some c \<Rightarrow> Inl (AlreadyExists name)
           | None \<Rightarrow>
               Inr (db(name \<mapsto>
                 \<lparr>vectors_size = sz, distance = metric_kind, payload_indexes = [], points = []\<rparr>))))"

text \<open>
  Modelled from the spec: \<^verbatim>\<open>createFieldIndex(collection, field, kind)\<close> of the Qdrant
  library, with the "already exists" condition when the field has an index.
\<close>

definition create_payload_index ::
  "services \<Rightarrow> store \<Rightarrow> string \<Rightarrow> string \<Rightarrow> string \<Rightarrow> error + store" where
  "create_payload_index sv db name field_name field_schema =
     (case fault_create_payload_index sv of
        Some e \<Rightarrow> Inl e
      | None \<Rightarrow>
          (case db name of
             None \<Rightarrow> Inl (NotFound name)
           | Some c \<Rightarrow>
               if field_name \<in> fst ` set (payload_indexes c)
               then Inl (AlreadyExists field_name)
               else Inr (db(name \<mapsto>
                 c\<lparr>payload_indexes := payload_indexes c @ [(field_name, field_schema)]\<rparr>))))"

text \<open>
  Modelled from the spec: \<^verbatim>\<open>count(collection) -> integer\<close> of the Qdrant library, the
  exact total count of all points in the collection, across all users.
\<close>

definition count :: "services \<Rightarrow> store \<Rightarrow> string \<Rightarrow> error + nat" where
  "count sv db name =
     (case fault_count sv of
        Some e \<Rightarrow> Inl e
      | None \<Rightarrow>
          (case db name of
             None \<Rightarrow> Inl (NotFound name)
           | Some c \<Rightarrow> Inr (length (points c))))"

text \<open>
  Modelled from the spec: \<^verbatim>\<open>upsert(collection, points)\<close> of the Qdrant library, with
  insert-or-replace semantics keyed by id (\<open>upsert_point\<close>); a new id goes to the end of
  the store's order.
\<close>

definition upsert :: "services \<Rightarrow> store \<Rightarrow> string \<Rightarrow> PointStruct list \<Rightarrow> error + store" where
  "upsert sv db name ps =
     (case fault_upsert sv of
        Some e \<Rightarrow> Inl e
      | None \<Rightarrow>
          (case db name of
             None \<Rightarrow> Inl (NotFound name)
           | Some c \<Rightarrow> Inr (db(name \<mapsto> c\<lparr>points := fold upsert_point ps (points c)\<rparr>))))"

text \<open>
  Modelled from the spec: \<^verbatim>\<open>search(collection, vector, filter, limit)\<close> of the Qdrant
  library, a similarity search restricted to the points that match the filter, which
  returns up to \<^verbatim>\<open>limit\<close> scored points ordered by descending similarity score.
\<close>

definition search ::
  "services \<Rightarrow> store \<Rightarrow> string \<Rightarrow> vector \<Rightarrow> Filter \<Rightarrow> nat \<Rightarrow> error + hit list" where
  "search sv db name query_vector query_filter limit =
     (case fault_search sv of
        Some e \<Rightarrow> Inl e
      | None \<Rightarrow>
          (case db name of
             None \<Rightarrow> Inl (NotFound name)
           | Some c \<Rightarrow>
               Inr (map (\<lambda>p. ScoredPoint p (metric sv (distance c) query_vector (pvector p)))
                     (take limit
                       (sort_key (\<lambda>p. - metric sv (distance c) query_vector (pvector p))
                         (filter (matches query_filter) (points c)))))))"

text \<open>
  Modelled from the spec: \<^verbatim>\<open>scroll(collection, filter, limit)\<close> of the Qdrant library, a
  bounded batch of the points that match the filter, in the store's natural
  (insertion) order, together with the id at which the next batch starts.
\<close>

definition scroll ::
  "services \<Rightarrow> store \<Rightarrow> string \<Rightarrow> Filter \<Rightarrow> nat \<Rightarrow> error + (hit list \<times> nat option)" where
  "scroll sv db name scroll_filter limit =
     (case fault_scroll sv of
        Some e \<Rightarrow> Inl e
      | None \<Rightarrow>
          (case db name of
             None \<Rightarrow> Inl (NotFound name)
           | Some c \<Rightarrow>
               (let ps = filter (matches scroll_filter) (points c)
                in Inr (map Record (take limit ps),
                        (case drop limit ps of [] \<Rightarrow> None | p # rest \<Rightarrow> Some (pid p))))))"

subsection \<open>The session\<close>

text \<open>
  The keys of \<^verbatim>\<open>st.session_state\<close> that the store functions read or write. A key
  that is not set is \<open>None\<close>: subscripting it raises \<^verbatim>\<open>KeyError\<close>, and \<^verbatim>\<open>.get\<close>
  gives Python's \<^verbatim>\<open>None\<close>.
\<close>

record note_entry =
  entry_text :: string
  entry_score :: "real option"

record session_state =
  user_id :: "string option"
  has_searched :: "bool option"
  last_query :: "string option"
  search_results :: "note_entry list option"

subsection \<open>Python strings\<close>

text \<open>
  \<^verbatim>\<open>str.strip()\<close> removes leading and trailing whitespace. The characters of the model
  are the code points below 256, of which \<^verbatim>\<open>str.isspace\<close> accepts 9 to 13, 28 to 32,
  133 and 160.
\<close>

definition isspace :: "char \<Rightarrow> bool" where
  "isspace ch = (of_char ch \<in> {9, 10, 11, 12, 13, 28, 29, 30, 31, 32, 133, 160 :: nat})"

definition strip :: "string \<Rightarrow> string" where
  "strip s = rev (dropWhile isspace (rev (dropWhile isspace s)))"

subsection \<open>The functions of app.py\<close>


definition assure_db_collection_exists :: "services \<Rightarrow> store \<Rightarrow> (error + unit) \<times> store" where
  "assure_db_collection_exists sv db =
     (case collection_exists sv db QDRANT_COLLECTION_NAME of
        Inl e \<Rightarrow> (Inl e, db)
      | Inr ex \<Rightarrow>
          (case (if \<not> ex
                 then create_collection sv db QDRANT_COLLECTION_NAME EMBEDDING_DIM COSINE
                 else Inr db) of
             Inl e \<Rightarrow> (Inl e, db)
           | Inr db1 \<Rightarrow>
               (case create_payload_index sv db1 QDRANT_COLLECTION_NAME ''user_id'' ''keyword'' of
                  Inl e \<Rightarrow> (Inr (), db1)
                | Inr db2 \<Rightarrow> (Inr (), db2))))"

definition get_embeddings :: "services \<Rightarrow> string \<Rightarrow> error + vector" where
  "get_embeddings sv txt = embeddings_create sv txt EMBEDDING_MODEL EMBEDDING_DIM"

text \<open>
  The local variable \<^verbatim>\<open>notes\<close> of \<^verbatim>\<open>list_notes_from_db\<close>: what the client returned,
  before the comprehension turns it into dictionaries. The condition
  \<^verbatim>\<open>query and query.strip()\<close> holds when \<^verbatim>\<open>query\<close> is a string, not empty, that
  \<^verbatim>\<open>strip\<close> does not empty; \<open>browse\<close> is the \<^verbatim>\<open>else\<close> branch.
\<close>

definition list_notes_hits ::
  "services \<Rightarrow> session_state \<Rightarrow> store \<Rightarrow> string option \<Rightarrow> error + hit list" where
  "list_notes_hits sv ss db query =
     (case user_id ss of
        None \<Rightarrow> Inl (KeyError ''user_id'')
      | Some uid \<Rightarrow>
          (let flt = Filter [FieldCondition ''user_id'' (MatchValue uid)];
               browse = (case scroll sv db QDRANT_COLLECTION_NAME flt 10 of
                           Inl e \<Rightarrow> Inl e
                         | Inr page \<Rightarrow> Inr (fst page))
           in case query of
                None \<Rightarrow> browse
              | Some q \<Rightarrow>
                  if q \<noteq> [] \<and> strip q \<noteq> []
                  then (case get_embeddings sv q of
                          Inl e \<Rightarrow> Inl e
                        | Inr qv \<Rightarrow> search sv db QDRANT_COLLECTION_NAME qv flt 10)
                  else browse))"

definition list_notes_from_db ::
  "services \<Rightarrow> session_state \<Rightarrow> store \<Rightarrow> string option \<Rightarrow> error + note_entry list" where
  "list_notes_from_db sv ss db query =
     (case list_notes_hits sv ss db query of
        Inl e \<Rightarrow> Inl e
      | Inr notes \<Rightarrow>
          Inr (map (\<lambda>n. \<lparr>entry_text = ptext (payload_of n), entry_score = getattr_score n\<rparr>)
                 notes))"

text \<open>
  \<^verbatim>\<open>add_note_to_db\<close> returns nothing; the model returns \<open>Inr ()\<close> or the exception,
  together with the session and the collection as the call leaves them. The argument
  \<^verbatim>\<open>get_embeddings(note_text)\<close> of \<^verbatim>\<open>PointStruct\<close> is evaluated before \<^verbatim>\<open>client.upsert\<close>
  is called.
\<close>

definition add_note_to_db ::
  "services \<Rightarrow> string \<Rightarrow> session_state \<Rightarrow> store \<Rightarrow> (error + unit) \<times> session_state \<times> store" where
  "add_note_to_db sv note_text ss db =
     (case user_id ss of
        None \<Rightarrow> (Inl (KeyError ''user_id''), ss, db)
      | Some uid \<Rightarrow>
          (case count sv db QDRANT_COLLECTION_NAME of
             Inl e \<Rightarrow> (Inl e, ss, db)
           | Inr cnt \<Rightarrow>
               (case get_embeddings sv note_text of
                  Inl e \<Rightarrow> (Inl e, ss, db)
                | Inr v \<Rightarrow>
                    (case upsert sv db QDRANT_COLLECTION_NAME
                            [\<lparr>pid = cnt + 1, pvector = v, ptext = note_text, puser_id = uid\<rparr>] of
                       Inl e \<Rightarrow> (Inl e, ss, db)
                     | Inr db' \<Rightarrow>
                         if has_searched ss = Some True
                         then (case last_query ss of
                                 None \<Rightarrow> (Inl (KeyError ''last_query''), ss, db')
                               | Some q \<Rightarrow>
                                   (case list_notes_from_db sv ss db' (Some q) of
                                      Inl e \<Rightarrow> (Inl e, ss, db')
                                    | Inr res \<Rightarrow>
                                        (Inr (), ss\<lparr>search_results := Some res\<rparr>, db')))
                         else (Inr (), ss, db')))))"

text \<open>
  A strictly sequential run: one call of \<^verbatim>\<open>add_note_to_db\<close> after the other on the
  shared collection, each from its own session and with its own collaborator outcomes.
  The run returns what every call returned and the collection it leaves.
\<close>

fun add_notes_sequentially ::
  "(services \<times> session_state \<times> string) list \<Rightarrow> store \<Rightarrow> (error + unit) list \<times> store" where
  "add_notes_sequentially [] db = ([], db)"
| "add_notes_sequentially ((sv, ss, note_text) # calls) db =
     (case add_note_to_db sv note_text ss db of
        (r, ss', db') \<Rightarrow>
          (case add_notes_sequentially calls db' of
             (rs, db'') \<Rightarrow> (r # rs, db'')))"

subsection \<open>Concrete collaborators, sessions and collections\<close>

text \<open>
  A service that embeds a text as the vector of its length and 1, scores by the dot
  product and never fails; variants of it in which one call fails.
\<close>

definition sv_ok :: services where
  "sv_ok =
     \<lparr>embeddings_create = (\<lambda>txt model dims. Inr [real (length txt), 1]),
      transcriptions_create = (\<lambda>audio name model fmt. Inr ''buy milk tomorrow''),
      metric = (\<lambda>d a b. sum_list (map2 (*) a b)),
      fault_collection_exists = None,
      fault_create_collection = None,
      fault_create_payload_index = None,
      fault_count = None,
      fault_upsert = None,
      fault_search = None,
      fault_scroll = None\<rparr>"

definition sv_index_down :: services where
  "sv_index_down = sv_ok\<lparr>fault_create_payload_index := Some (QdrantError ''timed out'')\<rparr>"

definition sv_store_down :: services where
  "sv_store_down = sv_ok\<lparr>fault_collection_exists := Some (QdrantError ''connection refused'')\<rparr>"



definition user_a :: session_state where
  "user_a =
     \<lparr>user_id = Some ''a1'', has_searched = Some False, last_query = Some [],
      search_results = Some []\<rparr>"

definition user_b :: session_state where
  "user_b =
     \<lparr>user_id = Some ''b2'', has_searched = Some False, last_query = Some [],
      search_results = Some []\<rparr>"

definition user_a_searched :: session_state where
  "user_a_searched =
     \<lparr>user_id = Some ''a1'', has_searched = Some True, last_query = Some ''grocery list'',
      search_results = Some []\<rparr>"

text \<open>The collection as \<^verbatim>\<open>assure_db_collection_exists\<close> creates it, and with notes in it.\<close>

definition notes_empty :: collection where
  "notes_empty =
     \<lparr>vectors_size = 3072, distance = COSINE,
      payload_indexes = [(''user_id'', ''keyword'')], points = []\<rparr>"

definition db_empty :: store where
  "db_empty = [''notes'' \<mapsto> notes_empty]"

definition notes_four :: collection where
  "notes_four =
     notes_empty\<lparr>points :=
       [\<lparr>pid = 1, pvector = [17, 1], ptext = ''buy milk tomorrow'', puser_id = ''a1''\<rparr>,
        \<lparr>pid = 2, pvector = [6, 1], ptext = ''secret'', puser_id = ''b2''\<rparr>,
        \<lparr>pid = 3, pvector = [8, 1], ptext = ''call mom'', puser_id = ''a1''\<rparr>,
        \<lparr>pid = 4, pvector = [18, 1], ptext = ''pay rent on friday'', puser_id = ''a1''\<rparr>]\<rparr>"

definition db_four :: store where
  "db_four = [''notes'' \<mapsto> notes_four]"

definition calls_four :: "(services \<times> session_state \<times> string) list" where
  "calls_four =
     [(sv_ok, user_a, ''buy milk tomorrow''), (sv_ok, user_b, ''secret''),
      (sv_ok, user_a, ''call mom''), (sv_ok, user_a, ''pay rent on friday'')]"

definition notes_ten :: collection where
  "notes_ten =
     notes_empty\<lparr>points :=
       [\<lparr>pid = 1, pvector = [2, 1], ptext = ''n0'', puser_id = ''a1''\<rparr>,
        \<lparr>pid = 2, pvector = [2, 1], ptext = ''n1'', puser_id = ''a1''\<rparr>,
        \<lparr>pid = 3, pvector = [2, 1], ptext = ''n2'', puser_id = ''a1''\<rparr>,
        \<lparr>pid = 4, pvector = [2, 1], ptext = ''n3'', puser_id = ''a1''\<rparr>,
        \<lparr>pid = 5, pvector = [2, 1], ptext = ''n4'', puser_id = ''a1''\<rparr>,
        \<lparr>pid = 6, pvector = [2, 1], ptext = ''n5'', puser_id = ''a1''\<rparr>,
        \<lparr>pid = 7, pvector = [2, 1], ptext = ''n6'', puser_id = ''a1''\<rparr>,
        \<lparr>pid = 8, pvector = [2, 1], ptext = ''n7'', puser_id = ''a1''\<rparr>,
        \<lparr>pid = 9, pvector = [2, 1], ptext = ''n8'', puser_id = ''a1''\<rparr>,
        \<lparr>pid = 10, pvector = [2, 1], ptext = ''n9'', puser_id = ''a1''\<rparr>]\<rparr>"

definition db_ten :: store where
  "db_ten = [''notes'' \<mapsto> notes_ten]"

definition calls_ten :: "(services \<times> session_state \<times> string) list" where
  "calls_ten =
     map (\<lambda>t. (sv_ok, user_a, t))
       [''n0'', ''n1'', ''n2'', ''n3'', ''n4'', ''n5'', ''n6'', ''n7'', ''n8'', ''n9'']"

definition notes_five :: collection where
  "notes_five =
     notes_four\<lparr>points := points notes_four @
       [\<lparr>pid = 5, pvector = [8, 1], ptext = ''buy eggs'', puser_id = ''a1''\<rparr>]\<rparr>"

definition db_five :: store where
  "db_five = [''notes'' \<mapsto> notes_five]"

definition notes_eleven :: collection where
  "notes_eleven =
     notes_ten\<lparr>points := points notes_ten @
       [\<lparr>pid = 11, pvector = [8, 1], ptext = ''eleventh'', puser_id = ''a1''\<rparr>]\<rparr>"

definition db_eleven :: store where
  "db_eleven = [''notes'' \<mapsto> notes_eleven]"



definition first_ten_entries :: "note_entry list" where
  "first_ten_entries =
     [\<lparr>entry_text = ''n0'', entry_score = None\<rparr>, \<lparr>entry_text = ''n1'', entry_score = None\<rparr>,
      \<lparr>entry_text = ''n2'', entry_score = None\<rparr>, \<lparr>entry_text = ''n3'', entry_score = None\<rparr>,
      \<lparr>entry_text = ''n4'', entry_score = None\<rparr>, \<lparr>entry_text = ''n5'', entry_score = None\<rparr>,
      \<lparr>entry_text = ''n6'', entry_score = None\<rparr>, \<lparr>entry_text = ''n7'', entry_score = None\<rparr>,
      \<lparr>entry_text = ''n8'', entry_score = None\<rparr>, \<lparr>entry_text = ''n9'', entry_score = None\<rparr>]"

definition user_a_refreshed :: session_state where
  "user_a_refreshed =
     user_a_searched\<lparr>search_results := Some
       [\<lparr>entry_text = ''pay rent on friday'', entry_score = Some 217\<rparr>,
        \<lparr>entry_text = ''buy milk tomorrow'', entry_score = Some 205\<rparr>,
        \<lparr>entry_text = ''call mom'', entry_score = Some 97\<rparr>,
        \<lparr>entry_text = ''buy eggs'', entry_score = Some 97\<rparr>]\<rparr>"

definition notes_unindexed :: collection where
  "notes_unindexed =
     \<lparr>vectors_size = 3072, distance = COSINE, payload_indexes = [], points = []\<rparr>"

definition db_unindexed :: store where
  "db_unindexed = [''notes'' \<mapsto> notes_unindexed]"






section \<open>Properties\<close>

subsection \<open>Auxiliary facts\<close>

lemma dropWhile_all_iff: "(\<forall>x\<in>set (dropWhile P xs). P x) \<longleftrightarrow> dropWhile P xs = []"
proof
  assume a: "\<forall>x\<in>set (dropWhile P xs). P x"
  show "dropWhile P xs = []"
  proof (cases "dropWhile P xs")
    case Nil then show ?thesis .
  next
    case (Cons y ys)
    then have "\<not> P y" using hd_dropWhile[of P xs] by simp
    moreover have "P y" using a Cons by simp
    ultimately show ?thesis by simp
  qed
next
  assume "dropWhile P xs = []"
  then show "\<forall>x\<in>set (dropWhile P xs). P x" by (auto dest: set_dropWhileD)
qed

lemma strip_Nil_iff: "strip s = [] \<longleftrightarrow> (\<forall>ch\<in>set s. isspace ch)"
proof -
  have "strip s = [] \<longleftrightarrow> (\<forall>x\<in>set (dropWhile isspace s). isspace x)"
    unfolding strip_def by simp
  also have "\<dots> \<longleftrightarrow> dropWhile isspace s = []" by (rule dropWhile_all_iff)
  also have "\<dots> \<longleftrightarrow> (\<forall>ch\<in>set s. isspace ch)" by simp
  finally show ?thesis .
qed

lemma matches_user_filter:
  "matches (Filter [FieldCondition ''user_id'' (MatchValue uid)]) = (\<lambda>p. puser_id p = uid)"
  by (rule ext) simp

lemma list_notes_hits_browse:
  assumes "user_id ss = Some uid"
      and "query = None \<or> (\<exists>q. query = Some q \<and> (\<forall>ch\<in>set q. isspace ch))"
  shows "list_notes_hits sv ss db query =
     (case scroll sv db QDRANT_COLLECTION_NAME
             (Filter [FieldCondition ''user_id'' (MatchValue uid)]) 10 of
        Inl e \<Rightarrow> Inl e | Inr page \<Rightarrow> Inr (fst page))"
  using assms by (auto simp: list_notes_hits_def strip_Nil_iff Let_def)

lemma list_notes_hits_query:
  assumes "user_id ss = Some uid"
      and "\<not> (\<forall>ch\<in>set q. isspace ch)"
  shows "list_notes_hits sv ss db (Some q) =
     (case get_embeddings sv q of
        Inl e \<Rightarrow> Inl e
      | Inr qv \<Rightarrow> search sv db QDRANT_COLLECTION_NAME qv
             (Filter [FieldCondition ''user_id'' (MatchValue uid)]) 10)"
proof -
  from assms(2) have "q \<noteq> []" "strip q \<noteq> []" by (auto simp: strip_Nil_iff)
  then show ?thesis using assms(1) by (simp add: list_notes_hits_def Let_def)
qed

lemma scroll_user:
  assumes "fault_scroll sv = None" and "db name = Some c"
  shows "scroll sv db name (Filter [FieldCondition ''user_id'' (MatchValue uid)]) n =
    Inr (map Record (take n (filter (\<lambda>p. puser_id p = uid) (points c))),
         (case drop n (filter (\<lambda>p. puser_id p = uid) (points c)) of
            [] \<Rightarrow> None | p # rest \<Rightarrow> Some (pid p)))"
  using assms by (simp add: scroll_def matches_user_filter Let_def del: matches.simps)

lemma search_user:
  assumes "fault_search sv = None" and "db name = Some c"
  shows "search sv db name qv (Filter [FieldCondition ''user_id'' (MatchValue uid)]) n =
    Inr (map (\<lambda>p. ScoredPoint p (metric sv (distance c) qv (pvector p)))
          (take n (sort_key (\<lambda>p. - metric sv (distance c) qv (pvector p))
             (filter (\<lambda>p. puser_id p = uid) (points c)))))"
  using assms by (simp add: search_def matches_user_filter del: matches.simps)

lemma hits_owner:
  assumes "user_id ss = Some uid"
      and "list_notes_hits sv ss db query = Inr notes"
  shows "\<exists>c. db QDRANT_COLLECTION_NAME = Some c \<and>
      (\<forall>n\<in>set notes. payload_of n \<in> set (points c) \<and> puser_id (payload_of n) = uid)"
  using assms
  by (auto simp: list_notes_hits_def Let_def scroll_def search_def
      split: option.splits sum.splits if_splits dest!: in_set_takeD)

lemma upsert_point_fresh: "pid p \<notin> pid ` set ps \<Longrightarrow> upsert_point p ps = ps @ [p]"
  by (induction ps) auto

lemma upsert_point_find:
  "find (\<lambda>x. pid x = i) (upsert_point p ps) =
     (if i = pid p then Some p else find (\<lambda>x. pid x = i) ps)"
  by (induction ps) auto

lemma upsert_point_mem: "p \<in> set (upsert_point p ps)"
  by (induction ps) auto

lemma upsert_point_set: "set (upsert_point p ps) \<subseteq> insert p (set ps)"
  by (induction ps) auto

lemma upsert_point_filter_length:
  "length (filter Q (upsert_point p ps)) \<le> Suc (length (filter Q ps))"
  by (induction ps) auto

lemma add_note_to_db_cases:
  assumes "add_note_to_db sv t ss db = (r, ss', db')"
  shows "db' = db \<or>
    (\<exists>uid c v. user_id ss = Some uid \<and> db QDRANT_COLLECTION_NAME = Some c \<and>
       get_embeddings sv t = Inr v \<and>
       db' = db(QDRANT_COLLECTION_NAME \<mapsto> c\<lparr>points :=
          upsert_point \<lparr>pid = length (points c) + 1, pvector = v, ptext = t, puser_id = uid\<rparr>
            (points c)\<rparr>))"
  using assms
  by (auto simp: add_note_to_db_def count_def upsert_def
      split: option.splits sum.splits if_splits)

lemma add_note_to_db_success:
  assumes "add_note_to_db sv t ss db = (Inr (), ss', db')" and "user_id ss = Some uid"
  shows "\<exists>c v. db QDRANT_COLLECTION_NAME = Some c \<and>
       count sv db QDRANT_COLLECTION_NAME = Inr (length (points c)) \<and>
       get_embeddings sv t = Inr v \<and>
       db' = db(QDRANT_COLLECTION_NAME \<mapsto> c\<lparr>points :=
          upsert_point \<lparr>pid = length (points c) + 1, pvector = v, ptext = t, puser_id = uid\<rparr>
            (points c)\<rparr>)"
  using assms
  by (auto simp: add_note_to_db_def count_def upsert_def
      split: option.splits sum.splits if_splits)

lemma add_notes_sequentially_provenance:
  assumes "add_notes_sequentially calls db0 = (rs, db)"
      and "db QDRANT_COLLECTION_NAME = Some c"
      and "p \<in> set (points c)"
  shows "(\<exists>c0. db0 QDRANT_COLLECTION_NAME = Some c0 \<and> p \<in> set (points c0)) \<or>
         (\<exists>(sv, ss, t)\<in>set calls. user_id ss = Some (puser_id p) \<and> ptext p = t)"
  using assms
proof (induction calls arbitrary: db0 rs)
  case Nil
  then show ?case by simp
next
  case (Cons call calls)
  obtain sv ss t where call: "call = (sv, ss, t)" by (cases call) auto
  obtain r ss' db1 where step: "add_note_to_db sv t ss db0 = (r, ss', db1)"
    by (cases "add_note_to_db sv t ss db0") auto
  obtain rs' where rest: "add_notes_sequentially calls db1 = (rs', db)"
    using Cons.prems(1) call step by (auto split: prod.splits)
  from Cons.IH[OF rest Cons.prems(2,3)]
  consider (old) c1 where "db1 QDRANT_COLLECTION_NAME = Some c1" "p \<in> set (points c1)"
    | (new) "\<exists>(sv, ss, t)\<in>set calls. user_id ss = Some (puser_id p) \<and> ptext p = t"
    by blast
  then show ?case
  proof cases
    case new
    then show ?thesis by auto
  next
    case old
    from add_note_to_db_cases[OF step]
    show ?thesis
    proof
      assume "db1 = db0"
      with old show ?thesis by auto
    next
      assume "\<exists>uid c v. user_id ss = Some uid \<and> db0 QDRANT_COLLECTION_NAME = Some c \<and>
        get_embeddings sv t = Inr v \<and>
        db1 = db0(QDRANT_COLLECTION_NAME \<mapsto> c\<lparr>points :=
          upsert_point \<lparr>pid = length (points c) + 1, pvector = v, ptext = t, puser_id = uid\<rparr>
            (points c)\<rparr>)"
      then obtain uid c0 v where u: "user_id ss = Some uid"
        and c0: "db0 QDRANT_COLLECTION_NAME = Some c0"
        and db1: "db1 = db0(QDRANT_COLLECTION_NAME \<mapsto> c0\<lparr>points :=
          upsert_point \<lparr>pid = length (points c0) + 1, pvector = v, ptext = t, puser_id = uid\<rparr>
            (points c0)\<rparr>)"
        by blast
      from old db1 have "p \<in> set (upsert_point
          \<lparr>pid = length (points c0) + 1, pvector = v, ptext = t, puser_id = uid\<rparr> (points c0))"
        by auto
      then have "p = \<lparr>pid = length (points c0) + 1, pvector = v, ptext = t, puser_id = uid\<rparr>
          \<or> p \<in> set (points c0)"
        using upsert_point_set by fastforce
      then show ?thesis
      proof
        assume "p = \<lparr>pid = length (points c0) + 1, pvector = v, ptext = t, puser_id = uid\<rparr>"
        then show ?thesis using u call by auto
      next
        assume "p \<in> set (points c0)"
        then show ?thesis using c0 by auto
      qed
    qed
  qed
qed

text \<open>Unfolding the concrete collaborators and the operations on concrete inputs.\<close>

lemmas ex_defs = sv_ok_def user_a_def user_b_def db_empty_def notes_empty_def
  QDRANT_COLLECTION_NAME_def EMBEDDING_DIM_def EMBEDDING_MODEL_def

lemmas op_defs = add_note_to_db_def count_def upsert_def get_embeddings_def
  list_notes_from_db_def list_notes_hits_def scroll_def search_def

lemma run_four:
  "add_notes_sequentially calls_four db_empty = ([Inr (), Inr (), Inr (), Inr ()], db_four)"
  by (simp add: calls_four_def db_four_def notes_four_def ex_defs op_defs eval_nat_numeral)

lemma run_ten: "add_notes_sequentially calls_ten db_empty = (replicate 10 (Inr ()), db_ten)"
  by (simp add: calls_ten_def db_ten_def notes_ten_def ex_defs op_defs eval_nat_numeral)

subsection \<open>Isolation between users\<close>

text \<open>
  C1. Notes of one user never show up in another user's listing. Take any collection
  \<open>db0\<close>, any strictly sequential run of \<^verbatim>\<open>add_note_to_db\<close> calls on it, and a listing
  (query or browse mode, whatever \<open>query\<close> is) made afterwards from a session of
  \<open>userId2\<close>. The listing is the text and score of the hits the client returned; every
  hit carries the payload \<^verbatim>\<open>user_id\<close> = \<open>userId2\<close>, so none carries a different
  \<open>userId1\<close>; and every hit was either already in \<open>db0\<close> or was written by a call of the
  run that was made from a session of \<open>userId2\<close> with that text. With no call at all
  this is a statement about every collection.
\<close>

theorem listed_notes_belong_to_caller:
  assumes "user_id ss = Some userId2"
      and "userId1 \<noteq> userId2"
      and "add_notes_sequentially calls db0 = (rs, db)"
      and "list_notes_hits sv ss db query = Inr notes"
  shows "list_notes_from_db sv ss db query =
           Inr (map (\<lambda>n. \<lparr>entry_text = ptext (payload_of n), entry_score = getattr_score n\<rparr>)
                  notes)
       \<and> (\<forall>n\<in>set notes.
             puser_id (payload_of n) = userId2 \<and> puser_id (payload_of n) \<noteq> userId1 \<and>
             ((\<exists>c0. db0 QDRANT_COLLECTION_NAME = Some c0 \<and> payload_of n \<in> set (points c0)) \<or>
              (\<exists>(sv', ss', t)\<in>set calls.
                 user_id ss' = Some userId2 \<and> ptext (payload_of n) = t)))"
proof -
  from hits_owner[OF assms(1,4)] obtain c where c: "db QDRANT_COLLECTION_NAME = Some c"
    and own: "\<forall>n\<in>set notes. payload_of n \<in> set (points c) \<and> puser_id (payload_of n) = userId2"
    by blast
  have "\<forall>n\<in>set notes.
     (\<exists>c0. db0 QDRANT_COLLECTION_NAME = Some c0 \<and> payload_of n \<in> set (points c0)) \<or>
     (\<exists>(sv', ss', t)\<in>set calls. user_id ss' = Some userId2 \<and> ptext (payload_of n) = t)"
  proof
    fix n assume n: "n \<in> set notes"
    with own have "payload_of n \<in> set (points c)" "puser_id (payload_of n) = userId2" by auto
    with add_notes_sequentially_provenance[OF assms(3) c, of "payload_of n"]
    show "(\<exists>c0. db0 QDRANT_COLLECTION_NAME = Some c0 \<and> payload_of n \<in> set (points c0)) \<or>
     (\<exists>(sv', ss', t)\<in>set calls. user_id ss' = Some userId2 \<and> ptext (payload_of n) = t)"
      by simp
  qed
  moreover have "list_notes_from_db sv ss db query =
           Inr (map (\<lambda>n. \<lparr>entry_text = ptext (payload_of n), entry_score = getattr_score n\<rparr>)
                  notes)"
    using assms(4) by (simp add: list_notes_from_db_def)
  ultimately show ?thesis using own assms(2) by auto
qed


theorem listed_notes_belong_to_caller_witness:
  "user_id user_b = Some ''b2'' \<and> ''a1'' \<noteq> ''b2''
   \<and> add_notes_sequentially calls_four db_empty = ([Inr (), Inr (), Inr (), Inr ()], db_four)
   \<and> list_notes_hits sv_ok user_b db_four None =
       Inr [Record \<lparr>pid = 2, pvector = [6, 1], ptext = ''secret'', puser_id = ''b2''\<rparr>]
   \<and> list_notes_from_db sv_ok user_b db_four None =
       Inr [\<lparr>entry_text = ''secret'', entry_score = None\<rparr>]"
proof -
  have h1: "user_id user_b = Some ''b2''" by (simp add: user_b_def)
  have h2: "''a1'' \<noteq> ''b2''" by simp
  have h4: "list_notes_hits sv_ok user_b db_four None =
       Inr [Record \<lparr>pid = 2, pvector = [6, 1], ptext = ''secret'', puser_id = ''b2''\<rparr>]"
    by (simp add: db_four_def notes_four_def ex_defs op_defs Let_def)
  from listed_notes_belong_to_caller[OF h1 h2 run_four h4] h1 h2 h4 run_four
  show ?thesis by simp
qed

subsection \<open>Adding a note\<close>

text \<open>
  C2. A call of \<^verbatim>\<open>add_note_to_db\<close> that returns normally has read the exact count of
  all points of the collection, whoever owns them, has embedded the text, and has
  upserted the point whose id is that count plus 1, whose vector is the embedding and
  whose payload is the text and the session's user id. The upsert is insert-or-replace
  keyed by id: afterwards the id leads to the new point, and every other id leads to
  what it led to before.
\<close>

theorem add_note_assigns_count_plus_one:
  assumes "user_id ss = Some userId"
      and "add_note_to_db sv note_text ss db = (Inr (), ss', db')"
  shows "\<exists>c v p. db QDRANT_COLLECTION_NAME = Some c
           \<and> count sv db QDRANT_COLLECTION_NAME = Inr (length (points c))
           \<and> get_embeddings sv note_text = Inr v
           \<and> p = \<lparr>pid = length (points c) + 1, pvector = v, ptext = note_text,
                   puser_id = userId\<rparr>
           \<and> upsert sv db QDRANT_COLLECTION_NAME [p] = Inr db'
           \<and> db' = db(QDRANT_COLLECTION_NAME \<mapsto> c\<lparr>points := upsert_point p (points c)\<rparr>)
           \<and> find (\<lambda>x. pid x = pid p) (upsert_point p (points c)) = Some p
           \<and> (\<forall>i. i \<noteq> pid p \<longrightarrow>
                 find (\<lambda>x. pid x = i) (upsert_point p (points c)) =
                 find (\<lambda>x. pid x = i) (points c))"
proof -
  from assms obtain c v where c: "db QDRANT_COLLECTION_NAME = Some c"
    and cnt: "count sv db QDRANT_COLLECTION_NAME = Inr (length (points c))"
    and v: "get_embeddings sv note_text = Inr v"
    and up: "upsert sv db QDRANT_COLLECTION_NAME
        [\<lparr>pid = length (points c) + 1, pvector = v, ptext = note_text, puser_id = userId\<rparr>]
        = Inr db'"
    by (auto simp: add_note_to_db_def count_def upsert_def
        split: option.splits sum.splits if_splits)
  define p where "p = \<lparr>pid = length (points c) + 1, pvector = v, ptext = note_text,
                   puser_id = userId\<rparr>"
  have db': "db' = db(QDRANT_COLLECTION_NAME \<mapsto> c\<lparr>points := upsert_point p (points c)\<rparr>)"
    using up c by (auto simp: upsert_def p_def split: option.splits)
  show ?thesis
    using c cnt v up db' upsert_point_find[of _ p "points c"]
    unfolding p_def[symmetric] by (intro exI[of _ c] exI[of _ v] exI[of _ p]) (simp add: p_def)
qed

theorem add_note_assigns_count_plus_one_witness:
  "user_id user_a = Some ''a1''
   \<and> add_note_to_db sv_ok ''buy eggs'' user_a db_four = (Inr (), user_a, db_five)
   \<and> count sv_ok db_four QDRANT_COLLECTION_NAME = Inr 4
   \<and> db_five QDRANT_COLLECTION_NAME = Some notes_five
   \<and> find (\<lambda>x. pid x = 5) (points notes_five) =
       Some \<lparr>pid = 5, pvector = [8, 1], ptext = ''buy eggs'', puser_id = ''a1''\<rparr>"
proof -
  have h1: "user_id user_a = Some ''a1''" by (simp add: user_a_def)
  have h2: "add_note_to_db sv_ok ''buy eggs'' user_a db_four = (Inr (), user_a, db_five)"
    by (simp add: db_four_def notes_four_def db_five_def notes_five_def ex_defs op_defs
        eval_nat_numeral)
  have c: "db_four QDRANT_COLLECTION_NAME = Some notes_four"
    by (simp add: db_four_def QDRANT_COLLECTION_NAME_def)
  have len: "length (points notes_four) = 4" by (simp add: notes_four_def notes_empty_def)
  from add_note_assigns_count_plus_one[OF h1 h2] c len
  have "count sv_ok db_four QDRANT_COLLECTION_NAME = Inr 4" by auto
  then show ?thesis using h1 h2
    by (simp add: db_five_def notes_five_def notes_four_def notes_empty_def
        QDRANT_COLLECTION_NAME_def)
qed

subsection \<open>Listing notes\<close>

lemma sorted_descending_sort_key:
  "sorted_wrt (\<lambda>a b. f b \<le> f a) (take n (sort_key (\<lambda>p. - f p) xs))"
  for f :: "'a \<Rightarrow> real"
proof -
  have "sorted (map (\<lambda>p. - f p) (sort_key (\<lambda>p. - f p) xs))" by (rule sorted_sort_key)
  then have "sorted (take n (map (\<lambda>p. - f p) (sort_key (\<lambda>p. - f p) xs)))"
    by (rule sorted_wrt_take)
  then have "sorted (map (\<lambda>p. - f p) (take n (sort_key (\<lambda>p. - f p) xs)))"
    by (simp add: take_map)
  then show ?thesis by (simp add: sorted_map)
qed

text \<open>
  C3. In query mode, that is for a query that is present and not blank, and when the
  embedding call and the search call succeed on an existing collection whose distance
  is cosine (as \<^verbatim>\<open>assure_db_collection_exists\<close> creates it), \<^verbatim>\<open>list_notes_from_db\<close>
  returns the text and the score of a list \<open>ps\<close> of stored points: at most 10 of them
  (10, or all of the user's notes when there are fewer), all with the payload
  \<^verbatim>\<open>user_id\<close> of the session, in order of non-increasing score, and the score of each
  entry is present and is the cosine similarity of the query's embedding and the
  point's vector.
\<close>

theorem list_notes_query_mode:
  assumes "user_id ss = Some userId"
      and "query = Some q"
      and "\<not> (\<forall>ch\<in>set q. isspace ch)"
      and "get_embeddings sv q = Inr qv"
      and "fault_search sv = None"
      and "db QDRANT_COLLECTION_NAME = Some c"
      and "distance c = COSINE"
  shows "\<exists>ps. list_notes_from_db sv ss db query =
                Inr (map (\<lambda>p. \<lparr>entry_text = ptext p,
                                entry_score = Some (metric sv COSINE qv (pvector p))\<rparr>) ps)
           \<and> length ps \<le> 10
           \<and> length ps = min 10 (length (filter (\<lambda>p. puser_id p = userId) (points c)))
           \<and> set ps \<subseteq> {p \<in> set (points c). puser_id p = userId}
           \<and> sorted_wrt (\<lambda>a b. metric sv COSINE qv (pvector b) \<le> metric sv COSINE qv (pvector a)) ps"
proof -
  define ps where "ps = take 10 (sort_key (\<lambda>p. - metric sv COSINE qv (pvector p))
             (filter (\<lambda>p. puser_id p = userId) (points c)))"
  have hits: "list_notes_hits sv ss db query =
      Inr (map (\<lambda>p. ScoredPoint p (metric sv COSINE qv (pvector p))) ps)"
    using list_notes_hits_query[OF assms(1,3), of sv db] assms(2,4,7)
      search_user[where sv=sv and db=db and name=QDRANT_COLLECTION_NAME and c=c and qv=qv
        and uid=userId and n=10, OF assms(5,6)]
    by (simp add: ps_def)
  have res: "list_notes_from_db sv ss db query =
      Inr (map (\<lambda>p. \<lparr>entry_text = ptext p,
                      entry_score = Some (metric sv COSINE qv (pvector p))\<rparr>) ps)"
    by (simp add: list_notes_from_db_def hits comp_def)
  have len: "length ps = min 10 (length (filter (\<lambda>p. puser_id p = userId) (points c)))"
    by (simp add: ps_def min.commute)
  have sub: "set ps \<subseteq> {p \<in> set (points c). puser_id p = userId}"
    unfolding ps_def by (auto dest: in_set_takeD)
  have srt: "sorted_wrt (\<lambda>a b. metric sv COSINE qv (pvector b) \<le> metric sv COSINE qv (pvector a)) ps"
    unfolding ps_def by (rule sorted_descending_sort_key)
  from res len sub srt show ?thesis by (intro exI[of _ ps]) simp
qed

theorem list_notes_query_mode_witness:
  "user_id user_a = Some ''a1''
   \<and> \<not> isspace CHR ''g''
   \<and> get_embeddings sv_ok ''grocery list'' = Inr [12, 1]
   \<and> fault_search sv_ok = None
   \<and> db_four QDRANT_COLLECTION_NAME = Some notes_four
   \<and> distance notes_four = COSINE
   \<and> list_notes_from_db sv_ok user_a db_four (Some ''grocery list'') =
       Inr [\<lparr>entry_text = ''pay rent on friday'', entry_score = Some 217\<rparr>,
            \<lparr>entry_text = ''buy milk tomorrow'', entry_score = Some 205\<rparr>,
            \<lparr>entry_text = ''call mom'', entry_score = Some 97\<rparr>]"
proof -
  have h1: "user_id user_a = Some ''a1''" by (simp add: user_a_def)
  have g: "\<not> isspace CHR ''g''" by (simp add: isspace_def)
  then have h3: "\<not> (\<forall>ch\<in>set ''grocery list''. isspace ch)" by simp
  have h4: "get_embeddings sv_ok ''grocery list'' = Inr [12, 1]"
    by (simp add: get_embeddings_def sv_ok_def)
  have h5: "fault_search sv_ok = None" by (simp add: sv_ok_def)
  have h6: "db_four QDRANT_COLLECTION_NAME = Some notes_four"
    by (simp add: db_four_def QDRANT_COLLECTION_NAME_def)
  have h7: "distance notes_four = COSINE" by (simp add: notes_four_def notes_empty_def)
  have h2: "Some ''grocery list'' = Some ''grocery list''" by simp
  note th = list_notes_query_mode[where db=db_four and c=notes_four, OF h1 h2 h3 h4 h5 h6 h7]
  have "list_notes_from_db sv_ok user_a db_four (Some ''grocery list'') =
       Inr [\<lparr>entry_text = ''pay rent on friday'', entry_score = Some 217\<rparr>,
            \<lparr>entry_text = ''buy milk tomorrow'', entry_score = Some 205\<rparr>,
            \<lparr>entry_text = ''call mom'', entry_score = Some 97\<rparr>]"
    by (simp add: db_four_def notes_four_def ex_defs op_defs strip_def isspace_def Let_def)
  with th show ?thesis using h1 g h4 h5 h6 h7 by simp
qed

lemma list_notes_from_db_browse:
  assumes "user_id ss = Some uid"
      and "query = None \<or> (\<exists>q. query = Some q \<and> (\<forall>ch\<in>set q. isspace ch))"
      and "fault_scroll sv = None"
      and "db QDRANT_COLLECTION_NAME = Some c"
  shows "list_notes_from_db sv ss db query =
      Inr (map (\<lambda>p. \<lparr>entry_text = ptext p, entry_score = None\<rparr>)
             (take 10 (filter (\<lambda>p. puser_id p = uid) (points c))))"
proof -
  have hits: "list_notes_hits sv ss db query =
      Inr (map Record (take 10 (filter (\<lambda>p. puser_id p = uid) (points c))))"
    using list_notes_hits_browse[OF assms(1,2), of sv db]
      scroll_user[where sv=sv and db=db and name=QDRANT_COLLECTION_NAME and c=c
        and uid=uid and n=10, OF assms(3,4)]
    by simp
  show ?thesis by (simp add: list_notes_from_db_def hits comp_def)
qed

text \<open>
  C4. In browse mode, that is for a query that is absent, empty or made of whitespace
  only, and when the scroll call succeeds on an existing collection,
  \<^verbatim>\<open>list_notes_from_db\<close> returns the texts of the first 10 points (or of all, when there
  are fewer) that carry the session's \<^verbatim>\<open>user_id\<close>, in the order in which the store
  holds them, and the score of every entry is \<open>None\<close>, which is not a score of zero.
\<close>

theorem list_notes_browse_mode:
  assumes "user_id ss = Some userId"
      and "query = None \<or> (\<exists>q. query = Some q \<and> (\<forall>ch\<in>set q. isspace ch))"
      and "fault_scroll sv = None"
      and "db QDRANT_COLLECTION_NAME = Some c"
  shows "\<exists>res. list_notes_from_db sv ss db query = Inr res
           \<and> res = map (\<lambda>p. \<lparr>entry_text = ptext p, entry_score = None\<rparr>)
                     (take 10 (filter (\<lambda>p. puser_id p = userId) (points c)))
           \<and> length res \<le> 10
           \<and> (\<forall>r\<in>set res. entry_score r = None \<and> entry_score r \<noteq> Some 0)"
proof -
  have "list_notes_from_db sv ss db query =
      Inr (map (\<lambda>p. \<lparr>entry_text = ptext p, entry_score = None\<rparr>)
             (take 10 (filter (\<lambda>p. puser_id p = userId) (points c))))"
    using assms by (rule list_notes_from_db_browse)
  then show ?thesis by auto
qed

theorem list_notes_browse_mode_witness:
  "user_id user_a = Some ''a1''
   \<and> isspace CHR '' ''
   \<and> fault_scroll sv_ok = None
   \<and> db_four QDRANT_COLLECTION_NAME = Some notes_four
   \<and> list_notes_from_db sv_ok user_a db_four (Some ''  '') =
       Inr [\<lparr>entry_text = ''buy milk tomorrow'', entry_score = None\<rparr>,
            \<lparr>entry_text = ''call mom'', entry_score = None\<rparr>,
            \<lparr>entry_text = ''pay rent on friday'', entry_score = None\<rparr>]
   \<and> list_notes_from_db sv_ok user_a db_four None =
       list_notes_from_db sv_ok user_a db_four (Some ''  '')"
proof -
  have h1: "user_id user_a = Some ''a1''" by (simp add: user_a_def)
  have sp: "isspace CHR '' ''" by (simp add: isspace_def)
  then have h2: "Some ''  '' = None \<or> (\<exists>q. Some ''  '' = Some q \<and> (\<forall>ch\<in>set q. isspace ch))"
    by simp
  have h2': "None = None \<or> (\<exists>q. None = Some q \<and> (\<forall>ch\<in>set q. isspace ch))"
    by simp
  have h3: "fault_scroll sv_ok = None" by (simp add: sv_ok_def)
  have h4: "db_four QDRANT_COLLECTION_NAME = Some notes_four"
    by (simp add: db_four_def QDRANT_COLLECTION_NAME_def)
  from list_notes_browse_mode[where db=db_four and c=notes_four, OF h1 h2 h3 h4]
    list_notes_browse_mode[where db=db_four and c=notes_four, OF h1 h2' h3 h4]
  show ?thesis using h1 sp h3 h4
    by (auto simp: notes_four_def notes_empty_def)
qed

subsection \<open>Reading back what was added\<close>

lemma list_notes_from_db_session:
  "user_id ss1 = user_id ss2 \<Longrightarrow>
     list_notes_from_db sv ss1 db query = list_notes_from_db sv ss2 db query"
  by (simp add: list_notes_from_db_def list_notes_hits_def)

text \<open>
  C5, as the code has it. Browse mode returns the first 10 of the user's notes in the
  order of the store, so a new note is listed when fewer than 10 notes of the user are
  stored before the call: after a call of \<^verbatim>\<open>add_note_to_db\<close> that returned normally on
  such a collection, a browse-mode listing from any session of the same user, whose
  scroll call does not fail, returns a hit with the text and the user id of the call,
  and so an entry with that text and no score.
\<close>

theorem added_note_listed_below_limit:
  assumes "user_id ss = Some userId"
      and "add_note_to_db sv note_text ss db = (Inr (), ss', db')"
      and "db QDRANT_COLLECTION_NAME = Some c"
      and "length (filter (\<lambda>p. puser_id p = userId) (points c)) < 10"
      and "user_id ss2 = Some userId"
      and "fault_scroll sv2 = None"
  shows "\<exists>notes n. list_notes_hits sv2 ss2 db' None = Inr notes
           \<and> n \<in> set notes
           \<and> ptext (payload_of n) = note_text
           \<and> puser_id (payload_of n) = userId
           \<and> list_notes_from_db sv2 ss2 db' None =
               Inr (map (\<lambda>n. \<lparr>entry_text = ptext (payload_of n),
                               entry_score = getattr_score n\<rparr>) notes)
           \<and> \<lparr>entry_text = note_text, entry_score = None\<rparr>
               \<in> set (map (\<lambda>n. \<lparr>entry_text = ptext (payload_of n),
                                  entry_score = getattr_score n\<rparr>) notes)"
proof -
  from add_note_to_db_success[OF assms(2,1)] assms(3)
  obtain v where db': "db' = db(QDRANT_COLLECTION_NAME \<mapsto> c\<lparr>points :=
          upsert_point \<lparr>pid = length (points c) + 1, pvector = v, ptext = note_text,
             puser_id = userId\<rparr> (points c)\<rparr>)"
    by auto
  define p where "p = \<lparr>pid = length (points c) + 1, pvector = v, ptext = note_text,
             puser_id = userId\<rparr>"
  define us where "us = filter (\<lambda>x. puser_id x = userId) (upsert_point p (points c))"
  have c': "db' QDRANT_COLLECTION_NAME = Some (c\<lparr>points := upsert_point p (points c)\<rparr>)"
    by (simp add: db' p_def)
  have "length us \<le> Suc (length (filter (\<lambda>x. puser_id x = userId) (points c)))"
    unfolding us_def by (rule upsert_point_filter_length)
  with assms(4) have "length us \<le> 10" by simp
  then have tk: "take 10 us = us" by simp
  have mem: "p \<in> set us"
    unfolding us_def using upsert_point_mem[of p "points c"] by (simp add: p_def)
  have any: "None = None \<or> (\<exists>q. None = Some q \<and> (\<forall>ch\<in>set q. isspace ch))" by simp
  have hits: "list_notes_hits sv2 ss2 db' None = Inr (map Record us)"
    using list_notes_hits_browse[OF assms(5) any, of sv2 db']
      scroll_user[where sv=sv2 and db=db' and name=QDRANT_COLLECTION_NAME and uid=userId
        and n=10, OF assms(6) c']
    by (simp add: us_def[symmetric] tk)
  have res: "list_notes_from_db sv2 ss2 db' None =
      Inr (map (\<lambda>n. \<lparr>entry_text = ptext (payload_of n), entry_score = getattr_score n\<rparr>)
             (map Record us))"
    by (simp add: list_notes_from_db_def hits)
  have n: "Record p \<in> set (map Record us)" using mem by simp
  have e: "\<lparr>entry_text = note_text, entry_score = None\<rparr>
      \<in> set (map (\<lambda>n. \<lparr>entry_text = ptext (payload_of n), entry_score = getattr_score n\<rparr>)
               (map Record us))"
    using mem by (force simp: p_def)
  show ?thesis
    using hits n res e
    by (intro exI[of _ "map Record us"] exI[of _ "Record p"]) (simp add: p_def)
qed

theorem added_note_listed_below_limit_witness:
  "user_id user_a = Some ''a1''
   \<and> add_note_to_db sv_ok ''buy eggs'' user_a db_four = (Inr (), user_a, db_five)
   \<and> db_four QDRANT_COLLECTION_NAME = Some notes_four
   \<and> length (filter (\<lambda>p. puser_id p = ''a1'') (points notes_four)) = 3
   \<and> fault_scroll sv_ok = None
   \<and> list_notes_from_db sv_ok user_a db_five None =
       Inr [\<lparr>entry_text = ''buy milk tomorrow'', entry_score = None\<rparr>,
            \<lparr>entry_text = ''call mom'', entry_score = None\<rparr>,
            \<lparr>entry_text = ''pay rent on friday'', entry_score = None\<rparr>,
            \<lparr>entry_text = ''buy eggs'', entry_score = None\<rparr>]"
proof -
  have h1: "user_id user_a = Some ''a1''" by (simp add: user_a_def)
  have h2: "add_note_to_db sv_ok ''buy eggs'' user_a db_four = (Inr (), user_a, db_five)"
    by (simp add: db_four_def notes_four_def db_five_def notes_five_def ex_defs op_defs
        eval_nat_numeral)
  have h3: "db_four QDRANT_COLLECTION_NAME = Some notes_four"
    by (simp add: db_four_def QDRANT_COLLECTION_NAME_def)
  have l: "length (filter (\<lambda>p. puser_id p = ''a1'') (points notes_four)) = 3"
    by (simp add: notes_four_def notes_empty_def)
  then have h4: "length (filter (\<lambda>p. puser_id p = ''a1'') (points notes_four)) < 10" by simp
  have h6: "fault_scroll sv_ok = None" by (simp add: sv_ok_def)
  note th = added_note_listed_below_limit[where db=db_four and c=notes_four,
      OF h1 h2 h3 h4 h1 h6]
  have "list_notes_from_db sv_ok user_a db_five None =
       Inr [\<lparr>entry_text = ''buy milk tomorrow'', entry_score = None\<rparr>,
            \<lparr>entry_text = ''call mom'', entry_score = None\<rparr>,
            \<lparr>entry_text = ''pay rent on friday'', entry_score = None\<rparr>,
            \<lparr>entry_text = ''buy eggs'', entry_score = None\<rparr>]"
    by (simp add: db_five_def notes_five_def notes_four_def ex_defs op_defs Let_def)
  with th show ?thesis using h1 h2 h3 l h6 by simp
qed

text \<open>
  C5, as the spec states it, fails at the limit. Ten sequential calls from user a1 on
  the empty collection leave ten notes; the eleventh call returns normally and stores
  its note, and the browse-mode listing that follows returns the first ten notes,
  without the one just added.
\<close>

theorem added_note_not_listed_counterexample:
  "add_notes_sequentially calls_ten db_empty = (replicate 10 (Inr ()), db_ten)
   \<and> add_note_to_db sv_ok ''eleventh'' user_a db_ten = (Inr (), user_a, db_eleven)
   \<and> list_notes_from_db sv_ok user_a db_eleven None = Inr first_ten_entries
   \<and> \<lparr>entry_text = ''eleventh'', entry_score = None\<rparr> \<notin> set first_ten_entries
   \<and> ''eleventh'' \<notin> set (map entry_text first_ten_entries)"
proof -
  have "add_note_to_db sv_ok ''eleventh'' user_a db_ten = (Inr (), user_a, db_eleven)"
    by (simp add: db_ten_def notes_ten_def db_eleven_def notes_eleven_def ex_defs op_defs
        eval_nat_numeral)
  moreover have "list_notes_from_db sv_ok user_a db_eleven None = Inr first_ten_entries"
  proof -
    have u: "user_id user_a = Some ''a1''" by (simp add: user_a_def)
    have f: "fault_scroll sv_ok = None" by (simp add: sv_ok_def)
    have c: "db_eleven QDRANT_COLLECTION_NAME = Some notes_eleven"
      by (simp add: db_eleven_def QDRANT_COLLECTION_NAME_def)
    have q: "None = None \<or> (\<exists>q. None = Some q \<and> (\<forall>ch\<in>set q. isspace ch))" by simp
    show ?thesis
      unfolding list_notes_from_db_browse[where db=db_eleven and c=notes_eleven, OF u q f c]
      by (simp add: notes_eleven_def notes_ten_def notes_empty_def first_ten_entries_def)
  qed
  ultimately show ?thesis using run_ten by (simp add: first_ten_entries_def)
qed

text \<open>
  C7. When the session has searched before (\<^verbatim>\<open>has_searched\<close> is set and \<^verbatim>\<open>last_query\<close>
  is remembered) and \<^verbatim>\<open>add_note_to_db\<close> returns normally, the cached
  \<^verbatim>\<open>search_results\<close> of the session it leaves are what \<^verbatim>\<open>list_notes_from_db\<close> returns
  for the remembered query on the collection it leaves, which holds the new note; the
  flag and the remembered query are unchanged.
\<close>

theorem add_note_refreshes_search_results:
  assumes "has_searched ss = Some True"
      and "last_query ss = Some q"
      and "add_note_to_db sv note_text ss db = (Inr (), ss', db')"
  shows "\<exists>res c' p. search_results ss' = Some res
           \<and> list_notes_from_db sv ss' db' (last_query ss') = Inr res
           \<and> last_query ss' = Some q
           \<and> has_searched ss' = Some True
           \<and> db' QDRANT_COLLECTION_NAME = Some c'
           \<and> p \<in> set (points c')
           \<and> ptext p = note_text
           \<and> user_id ss' = Some (puser_id p)"
proof -
  from assms obtain res uid where ss': "ss' = ss\<lparr>search_results := Some res\<rparr>"
    and res: "list_notes_from_db sv ss db' (Some q) = Inr res"
    and uid: "user_id ss = Some uid"
    by (auto simp: add_note_to_db_def split: option.splits sum.splits if_splits)
  from add_note_to_db_success[OF assms(3) uid]
  obtain c v where db': "db' = db(QDRANT_COLLECTION_NAME \<mapsto> c\<lparr>points :=
          upsert_point \<lparr>pid = length (points c) + 1, pvector = v, ptext = note_text,
             puser_id = uid\<rparr> (points c)\<rparr>)"
    by auto
  define p where "p = \<lparr>pid = length (points c) + 1, pvector = v, ptext = note_text,
             puser_id = uid\<rparr>"
  have c': "db' QDRANT_COLLECTION_NAME = Some (c\<lparr>points := upsert_point p (points c)\<rparr>)"
    by (simp add: db' p_def)
  have mem: "p \<in> set (points (c\<lparr>points := upsert_point p (points c)\<rparr>))"
    by (simp add: upsert_point_mem)
  have "list_notes_from_db sv ss' db' (Some q) = list_notes_from_db sv ss db' (Some q)"
    by (rule list_notes_from_db_session) (simp add: ss')
  with res ss' assms(1,2) uid c' mem show ?thesis
    by (intro exI[of _ res] exI[of _ "c\<lparr>points := upsert_point p (points c)\<rparr>"] exI[of _ p])
       (simp add: p_def)
qed

theorem add_note_refreshes_search_results_witness:
  "has_searched user_a_searched = Some True
   \<and> last_query user_a_searched = Some ''grocery list''
   \<and> add_note_to_db sv_ok ''buy eggs'' user_a_searched db_four =
       (Inr (), user_a_refreshed, db_five)
   \<and> list_notes_from_db sv_ok user_a_refreshed db_five (Some ''grocery list'') =
       Inr [\<lparr>entry_text = ''pay rent on friday'', entry_score = Some 217\<rparr>,
            \<lparr>entry_text = ''buy milk tomorrow'', entry_score = Some 205\<rparr>,
            \<lparr>entry_text = ''call mom'', entry_score = Some 97\<rparr>,
            \<lparr>entry_text = ''buy eggs'', entry_score = Some 97\<rparr>]"
proof -
  have h1: "has_searched user_a_searched = Some True" by (simp add: user_a_searched_def)
  have h2: "last_query user_a_searched = Some ''grocery list''"
    by (simp add: user_a_searched_def)
  have h3: "add_note_to_db sv_ok ''buy eggs'' user_a_searched db_four =
       (Inr (), user_a_refreshed, db_five)"
    by (simp add: db_four_def notes_four_def db_five_def notes_five_def user_a_refreshed_def
        user_a_searched_def ex_defs op_defs strip_def isspace_def Let_def eval_nat_numeral)
  have sr: "search_results user_a_refreshed = Some
       [\<lparr>entry_text = ''pay rent on friday'', entry_score = Some 217\<rparr>,
        \<lparr>entry_text = ''buy milk tomorrow'', entry_score = Some 205\<rparr>,
        \<lparr>entry_text = ''call mom'', entry_score = Some 97\<rparr>,
        \<lparr>entry_text = ''buy eggs'', entry_score = Some 97\<rparr>]"
    by (simp add: user_a_refreshed_def)
  have lq: "last_query user_a_refreshed = Some ''grocery list''"
    by (simp add: user_a_refreshed_def user_a_searched_def)
  from add_note_refreshes_search_results[OF h1 h2 h3] sr lq
  have "list_notes_from_db sv_ok user_a_refreshed db_five (Some ''grocery list'') =
       Inr [\<lparr>entry_text = ''pay rent on friday'', entry_score = Some 217\<rparr>,
            \<lparr>entry_text = ''buy milk tomorrow'', entry_score = Some 205\<rparr>,
            \<lparr>entry_text = ''call mom'', entry_score = Some 97\<rparr>,
            \<lparr>entry_text = ''buy eggs'', entry_score = Some 97\<rparr>]"
    by auto
  with h1 h2 h3 show ?thesis by simp
qed

subsection \<open>Identifiers under sequential execution\<close>

lemma add_note_to_db_ids:
  assumes "add_note_to_db sv t ss db = (r, ss', db')"
      and "db QDRANT_COLLECTION_NAME = Some c"
      and "map pid (points c) = [1..<Suc (length (points c))]"
  shows "(db' = db \<and> r \<noteq> Inr ()) \<or>
         (\<exists>p. pid p = length (points c) + 1 \<and> pid p \<notin> pid ` set (points c) \<and>
              db' = db(QDRANT_COLLECTION_NAME \<mapsto> c\<lparr>points := points c @ [p]\<rparr>))"
proof -
  have fresh: "length (points c) + 1 \<notin> pid ` set (points c)"
  proof -
    have "pid ` set (points c) = set [1..<Suc (length (points c))]"
      using assms(3) by (metis set_map)
    then show ?thesis by simp
  qed
  from assms(1,2) consider (same) "db' = db" "r \<noteq> Inr ()"
    | (stored) uid v where "db' = db(QDRANT_COLLECTION_NAME \<mapsto> c\<lparr>points :=
          upsert_point \<lparr>pid = length (points c) + 1, pvector = v, ptext = t, puser_id = uid\<rparr>
            (points c)\<rparr>)"
    by (auto simp: add_note_to_db_def count_def upsert_def
        split: option.splits sum.splits if_splits)
  then show ?thesis
  proof cases
    case same
    then show ?thesis by simp
  next
    case stored
    define p where "p = \<lparr>pid = length (points c) + 1, pvector = v, ptext = t, puser_id = uid\<rparr>"
    have "pid p \<notin> pid ` set (points c)" using fresh by (simp add: p_def)
    then have "upsert_point p (points c) = points c @ [p]" by (rule upsert_point_fresh)
    with stored fresh show ?thesis
      by (intro disjI2 exI[of _ p]) (simp add: p_def)
  qed
qed

lemma add_notes_sequentially_ids:
  assumes "add_notes_sequentially calls db0 = (rs, db)"
      and "db0 QDRANT_COLLECTION_NAME = Some c0"
      and "map pid (points c0) = [1..<Suc (length (points c0))]"
      and "rs = replicate (length calls) (Inr ())"
  shows "\<exists>c. db QDRANT_COLLECTION_NAME = Some c \<and>
             length (points c) = length (points c0) + length calls \<and>
             map pid (points c) = [1..<Suc (length (points c))]"
  using assms
proof (induction calls arbitrary: db0 c0 rs)
  case Nil
  then show ?case by simp
next
  case (Cons call calls)
  obtain sv ss t where call: "call = (sv, ss, t)" by (cases call) auto
  obtain r ss' db1 where step: "add_note_to_db sv t ss db0 = (r, ss', db1)"
    by (cases "add_note_to_db sv t ss db0") auto
  obtain rs' where rest: "add_notes_sequentially calls db1 = (rs', db)"
    and rs: "rs = r # rs'"
    using Cons.prems(1) call step by (auto split: prod.splits)
  have rep: "replicate (length (call # calls)) (Inr () :: error + unit) =
      Inr () # replicate (length calls) (Inr ())"
    by simp
  have eq: "r # rs' = Inr () # replicate (length calls) (Inr ())"
    unfolding rep[symmetric] rs[symmetric] by (rule Cons.prems(4))
  have r: "r = Inr ()"
    using eq by (rule list.inject[THEN iffD1, THEN conjunct1])
  have rs': "rs' = replicate (length calls) (Inr ())"
    using eq by (rule list.inject[THEN iffD1, THEN conjunct2])
  from add_note_to_db_ids[OF step Cons.prems(2,3)] r
  obtain p where p: "pid p = length (points c0) + 1"
    and db1: "db1 = db0(QDRANT_COLLECTION_NAME \<mapsto> c0\<lparr>points := points c0 @ [p]\<rparr>)"
    by auto
  have c1: "db1 QDRANT_COLLECTION_NAME = Some (c0\<lparr>points := points c0 @ [p]\<rparr>)"
    by (simp add: db1)
  have ids1: "map pid (points (c0\<lparr>points := points c0 @ [p]\<rparr>)) =
      [1..<Suc (length (points (c0\<lparr>points := points c0 @ [p]\<rparr>)))]"
    using Cons.prems(3) p by simp
  from Cons.IH[OF rest c1 ids1 rs'] show ?case by auto
qed

text \<open>
  C10. Start from an empty collection and let \<open>calls\<close> be any strictly sequential run of
  \<^verbatim>\<open>add_note_to_db\<close> calls, from whatever sessions, that all return normally. Then the
  collection holds as many points as there were calls and their ids are 1 up to that
  number, in this order. A further call that returns normally is given the id one above
  that number, which no stored point has, so its upsert appends a point and replaces
  none, and the ids are again 1 up to the number of calls.
\<close>

theorem sequential_ids_are_one_to_n:
  assumes "db0 QDRANT_COLLECTION_NAME = Some c0"
      and "points c0 = []"
      and "add_notes_sequentially calls db0 = (rs, db)"
      and "rs = replicate (length calls) (Inr ())"
      and "add_note_to_db sv note_text ss db = (Inr (), ss', db')"
  shows "\<exists>c p. db QDRANT_COLLECTION_NAME = Some c
           \<and> map pid (points c) = [1..<Suc (length calls)]
           \<and> pid p = length calls + 1
           \<and> pid p \<notin> pid ` set (points c)
           \<and> db' = db(QDRANT_COLLECTION_NAME \<mapsto> c\<lparr>points := points c @ [p]\<rparr>)
           \<and> map pid (points c @ [p]) = [1..<Suc (Suc (length calls))]"
proof -
  have ids0: "map pid (points c0) = [1..<Suc (length (points c0))]"
    using assms(2) by simp
  from add_notes_sequentially_ids[OF assms(3,1) ids0 assms(4)] assms(2)
  obtain c where c: "db QDRANT_COLLECTION_NAME = Some c"
    and len: "length (points c) = length calls"
    and ids: "map pid (points c) = [1..<Suc (length (points c))]"
    by auto
  from add_note_to_db_ids[OF assms(5) c ids]
  obtain p where p: "pid p = length (points c) + 1" "pid p \<notin> pid ` set (points c)"
    and db': "db' = db(QDRANT_COLLECTION_NAME \<mapsto> c\<lparr>points := points c @ [p]\<rparr>)"
    by auto
  show ?thesis
    using c len ids p db'
    by (intro exI[of _ c] exI[of _ p]) simp
qed

theorem sequential_ids_are_one_to_n_witness:
  "db_empty QDRANT_COLLECTION_NAME = Some notes_empty
   \<and> points notes_empty = []
   \<and> add_notes_sequentially calls_four db_empty = ([Inr (), Inr (), Inr (), Inr ()], db_four)
   \<and> add_note_to_db sv_ok ''buy eggs'' user_a db_four = (Inr (), user_a, db_five)
   \<and> map pid (points notes_four) = [1, 2, 3, 4]
   \<and> map pid (points notes_five) = [1, 2, 3, 4, 5]"
proof -
  have h1: "db_empty QDRANT_COLLECTION_NAME = Some notes_empty"
    by (simp add: db_empty_def QDRANT_COLLECTION_NAME_def)
  have h2: "points notes_empty = []" by (simp add: notes_empty_def)
  note h3 = run_four
  have h4: "[Inr (), Inr (), Inr (), Inr ()] = replicate (length calls_four) (Inr () :: error + unit)"
    by (simp add: calls_four_def)
  have h5: "add_note_to_db sv_ok ''buy eggs'' user_a db_four = (Inr (), user_a, db_five)"
    by (simp add: db_four_def notes_four_def db_five_def notes_five_def ex_defs op_defs
        eval_nat_numeral)
  have c4: "db_four QDRANT_COLLECTION_NAME = Some notes_four"
    by (simp add: db_four_def QDRANT_COLLECTION_NAME_def)
  have l4: "length calls_four = 4" by (simp add: calls_four_def)
  from sequential_ids_are_one_to_n[OF h1 h2 h3 h4 h5] c4 l4
  have "map pid (points notes_four) = [1..<Suc 4]" by auto
  then have "map pid (points notes_four) = [1, 2, 3, 4]"
    by (simp add: upt_rec eval_nat_numeral)
  then show ?thesis using h1 h2 h3 h5
    by (simp add: notes_five_def)
qed

subsection \<open>Failures\<close>

text \<open>
  C6, as the code has it. The \<^verbatim>\<open>try\<close> around the index creation has a bare
  \<^verbatim>\<open>except: pass\<close>: every failure of \<^verbatim>\<open>create_payload_index\<close> is swallowed, whatever
  it is, and \<^verbatim>\<open>assure_db_collection_exists\<close> returns normally with the collection as it
  was before the index call. A failure of \<^verbatim>\<open>collection_exists\<close> propagates, and so does
  a failure of \<^verbatim>\<open>create_collection\<close> when the collection is missing; both leave the
  store unchanged.
\<close>

theorem assure_swallows_every_index_failure:
  "(\<forall>e. collection_exists sv db QDRANT_COLLECTION_NAME = Inl e \<longrightarrow>
        assure_db_collection_exists sv db = (Inl e, db))
   \<and> (\<forall>e. collection_exists sv db QDRANT_COLLECTION_NAME = Inr False \<and>
        create_collection sv db QDRANT_COLLECTION_NAME EMBEDDING_DIM COSINE = Inl e \<longrightarrow>
        assure_db_collection_exists sv db = (Inl e, db))
   \<and> (\<forall>ex db1 e. collection_exists sv db QDRANT_COLLECTION_NAME = Inr ex \<and>
        (if ex then Inr db
         else create_collection sv db QDRANT_COLLECTION_NAME EMBEDDING_DIM COSINE) = Inr db1 \<and>
        create_payload_index sv db1 QDRANT_COLLECTION_NAME ''user_id'' ''keyword'' = Inl e \<longrightarrow>
        assure_db_collection_exists sv db = (Inr (), db1))"
  by (auto simp: assure_db_collection_exists_def split: sum.splits)

theorem assure_swallows_every_index_failure_witness:
  "collection_exists sv_store_down db_empty QDRANT_COLLECTION_NAME =
     Inl (QdrantError ''connection refused'')
   \<and> assure_db_collection_exists sv_store_down db_empty =
       (Inl (QdrantError ''connection refused''), db_empty)
   \<and> collection_exists sv_ok db_empty QDRANT_COLLECTION_NAME = Inr True
   \<and> create_payload_index sv_ok db_empty QDRANT_COLLECTION_NAME ''user_id'' ''keyword'' =
       Inl (AlreadyExists ''user_id'')
   \<and> assure_db_collection_exists sv_ok db_empty = (Inr (), db_empty)"
proof -
  have h1: "collection_exists sv_store_down db_empty QDRANT_COLLECTION_NAME =
     Inl (QdrantError ''connection refused'')"
    by (simp add: collection_exists_def sv_store_down_def sv_ok_def)
  have h2: "collection_exists sv_ok db_empty QDRANT_COLLECTION_NAME = Inr True"
    by (simp add: collection_exists_def ex_defs)
  have h3: "(if True then Inr db_empty
       else create_collection sv_ok db_empty QDRANT_COLLECTION_NAME EMBEDDING_DIM COSINE) =
       Inr db_empty"
    by simp
  have h4: "create_payload_index sv_ok db_empty QDRANT_COLLECTION_NAME ''user_id'' ''keyword'' =
       Inl (AlreadyExists ''user_id'')"
    by (simp add: create_payload_index_def ex_defs)
  from assure_swallows_every_index_failure[of sv_store_down db_empty] h1
  have a: "assure_db_collection_exists sv_store_down db_empty =
       (Inl (QdrantError ''connection refused''), db_empty)"
    by blast
  from assure_swallows_every_index_failure[of sv_ok db_empty] h2 h3 h4
  have b: "assure_db_collection_exists sv_ok db_empty = (Inr (), db_empty)"
    by blast
  from a b h1 h2 h4 show ?thesis by simp
qed

text \<open>
  C6, as the spec states it, fails: on a cold start the index creation times out, which
  is not the "already exists" failure, and \<^verbatim>\<open>assure_db_collection_exists\<close> still
  returns normally, leaving the new collection without its index.
\<close>

theorem assure_swallows_timeout_counterexample:
  "create_collection sv_index_down Map.empty QDRANT_COLLECTION_NAME EMBEDDING_DIM COSINE =
     Inr db_unindexed
   \<and> create_payload_index sv_index_down db_unindexed QDRANT_COLLECTION_NAME
        ''user_id'' ''keyword'' = Inl (QdrantError ''timed out'')
   \<and> QdrantError ''timed out'' \<noteq> AlreadyExists ''user_id''
   \<and> assure_db_collection_exists sv_index_down Map.empty = (Inr (), db_unindexed)"
  by (simp add: assure_db_collection_exists_def collection_exists_def create_collection_def
      create_payload_index_def sv_index_down_def db_unindexed_def notes_unindexed_def ex_defs)




end
